theory Spec2Isabelle
  imports Complex_Main "HOL-Library.Word"
begin

section \<open>Data model (src/main.go, lines 12-48)\<close>

text \<open>
  Go's \<^verbatim>\<open>int\<close> is the 64-bit two's-complement integer of the usual targets: a
  \<open>64 word\<close>, compared as a signed value (\<open>\<le>s\<close>). A Go \<^verbatim>\<open>string\<close> is a byte
  sequence compared byte by byte: a \<open>string\<close>.

  \<^verbatim>\<open>Outcome float64\<close> is only ever compared, with \<^verbatim>\<open>>\<close> (line 97). Every
  stored value comes out of \<^verbatim>\<open>encoding/json\<close> (line 132), which has no literal for
  NaN or an infinity and fails on a number out of range, so it is a finite float64, and
  the comparison of finite float64 values is the comparison of the reals they denote.
  \<open>Outcome\<close> is a \<open>real\<close>.

  \<^verbatim>\<open>EnabledFor map[string]bool\<close> is a reference that may be nil: the zero value of
  the field, which is what decoding leaves when the JSON object has no
  \<^verbatim>\<open>enabledFor\<close> member (or has \<^verbatim>\<open>null\<close> there). The field is
  \<open>None\<close> for the nil map and \<open>Some m\<close> for an allocated one.

  \<^verbatim>\<open>Timestamp time.Time\<close> is read by no function; it is kept as an opaque instant.
  Both structs have a field \<^verbatim>\<open>MerchantCategory\<close>; the transaction's is
  \<open>TxnMerchantCategory\<close> here, since record fields share one name space.
\<close>

record Transaction =
  TxnID :: string
  CustomerID :: string
  Amount :: "64 word"
  MerchantID :: string
  TxnMerchantCategory :: string
  PostEntryMode :: string
  Timestamp :: int

record Offer =
  ID :: string
  Name :: string
  Description :: string
  RewardType :: string
  Outcome :: real
  MinAmount :: "64 word"
  MinMilestone :: "64 word"
  Details :: string
  EnabledFor :: "(string \<rightharpoonup> bool) option"
  MerchantCategory :: string

text \<open>
  \<^verbatim>\<open>var offers map[string]*Offer\<close> (line 48). The only write to it is
  \<^verbatim>\<open>offers[offer.ID] = &offer\<close> (line 138) with the address of a variable that is
  fresh in each call, so no two keys ever hold the same pointer and no \<^verbatim>\<open>Offer\<close>
  is reachable from anywhere else: the map of pointers is a map of values.
\<close>

type_synonym store = "string \<rightharpoonup> Offer"

text \<open>The run-time panic of line 39 and line 44: "assignment to entry in nil map".\<close>

datatype panic = NilMapAssignment

text \<open>
  What a handler answers: the status it writes, or \<open>Aborted\<close> when it panics before
  writing anything (net/http recovers the panic and closes the connection).
\<close>

datatype response = StatusOK | StatusBadRequest | StatusNotFound | Aborted panic

text \<open>\<^verbatim>\<open>fmt.Errorf("no applicable offer found")\<close> (line 107).\<close>

datatype error = NoApplicableOffer

section \<open>Enablement (lines 37-45, and the read of line 90)\<close>

text \<open>
  \<^verbatim>\<open>o.EnabledFor[userID] = true\<close>: an assignment to an entry of a nil map panics,
  and the offer is left as it was.
\<close>

definition EnableForUser :: "Offer \<Rightarrow> string \<Rightarrow> panic + Offer" where
  "EnableForUser offer userID =
     (case EnabledFor offer of
        None \<Rightarrow> Inl NilMapAssignment
      | Some m \<Rightarrow> Inr (offer\<lparr>EnabledFor := Some (m(userID \<mapsto> True))\<rparr>))"

definition DisableForUser :: "Offer \<Rightarrow> string \<Rightarrow> panic + Offer" where
  "DisableForUser offer userID =
     (case EnabledFor offer of
        None \<Rightarrow> Inl NilMapAssignment
      | Some m \<Rightarrow> Inr (offer\<lparr>EnabledFor := Some (m(userID \<mapsto> False))\<rparr>))"

text \<open>
  The index expression \<^verbatim>\<open>offer.EnabledFor[userID]\<close> of line 90: the stored flag,
  and the zero value \<^verbatim>\<open>false\<close> when the key is absent or the map is nil.
\<close>

definition isEnabledFor :: "Offer \<Rightarrow> string \<Rightarrow> bool" where
  "isEnabledFor offer userID =
     (case EnabledFor offer of
        None \<Rightarrow> False
      | Some m \<Rightarrow> (case m userID of None \<Rightarrow> False | Some b \<Rightarrow> b))"

text \<open>The entry a user has in an offer's map: absent, explicit false or explicit true.\<close>

definition entry :: "Offer \<Rightarrow> string \<Rightarrow> bool option" where
  "entry offer userID = (case EnabledFor offer of None \<Rightarrow> None | Some m \<Rightarrow> m userID)"

section \<open>Eligibility (lines 89-91)\<close>

definition isOfferApplicable :: "Transaction \<Rightarrow> Offer \<Rightarrow> bool" where
  "isOfferApplicable transaction offer \<longleftrightarrow>
     MinAmount offer \<le>s Amount transaction
     \<and> TxnMerchantCategory transaction = MerchantCategory offer
     \<and> isEnabledFor offer (CustomerID transaction)"

section \<open>Selection (lines 93-108)\<close>

text \<open>
  \<^verbatim>\<open>for _, offer := range offers\<close> visits every entry of the map once, in an order
  the language leaves open: the order is a parameter, a list \<open>ks\<close> of the keys.
\<close>

definition range_order :: "store \<Rightarrow> string list \<Rightarrow> bool" where
  "range_order offers ks \<longleftrightarrow> distinct ks \<and> set ks = dom offers"

definition visited :: "store \<Rightarrow> string list \<Rightarrow> Offer list" where
  "visited offers ks = List.map_filter offers ks"

text \<open>The loop body, with \<open>bestOffer\<close> the pointer that starts as nil.\<close>

fun bestOffer_loop :: "Transaction \<Rightarrow> Offer list \<Rightarrow> Offer option \<Rightarrow> Offer option" where
  "bestOffer_loop transaction [] bestOffer = bestOffer"
| "bestOffer_loop transaction (offer # rest) bestOffer =
     bestOffer_loop transaction rest
       (if isOfferApplicable transaction offer then
          (case bestOffer of
             None \<Rightarrow> Some offer
           | Some b \<Rightarrow> if Outcome offer > Outcome b then Some offer else bestOffer)
        else bestOffer)"

definition ApplyBestOfferForTransaction ::
    "Transaction \<Rightarrow> store \<Rightarrow> string list \<Rightarrow> error + Offer" where
  "ApplyBestOfferForTransaction transaction offers ks =
     (case bestOffer_loop transaction (visited offers ks) None of
        Some bestOffer \<Rightarrow> Inr bestOffer
      | None \<Rightarrow> Inl NoApplicableOffer)"

section \<open>Handlers (lines 50-78 and 130-142)\<close>

text \<open>
  A handler takes the store and returns its answer and the store it leaves. The route
  variables \<^verbatim>\<open>offerName\<close> and \<^verbatim>\<open>userID\<close> are its arguments. The message
  written after the status is not modelled.
\<close>

definition enableOfferHandler :: "store \<Rightarrow> string \<Rightarrow> string \<Rightarrow> response \<times> store" where
  "enableOfferHandler offers offerName userID =
     (case offers offerName of
        None \<Rightarrow> (StatusNotFound, offers)
      | Some offer \<Rightarrow>
          (case EnableForUser offer userID of
             Inl p \<Rightarrow> (Aborted p, offers)
           | Inr offer' \<Rightarrow> (StatusOK, offers(offerName \<mapsto> offer'))))"

definition disableOfferHandler :: "store \<Rightarrow> string \<Rightarrow> string \<Rightarrow> response \<times> store" where
  "disableOfferHandler offers offerName userID =
     (case offers offerName of
        None \<Rightarrow> (StatusNotFound, offers)
      | Some offer \<Rightarrow>
          (case DisableForUser offer userID of
             Inl p \<Rightarrow> (Aborted p, offers)
           | Inr offer' \<Rightarrow> (StatusOK, offers(offerName \<mapsto> offer'))))"

text \<open>
  \<^verbatim>\<open>createOfferHandler\<close>: the body is what \<^verbatim>\<open>Decode\<close> made of the request,
  \<open>None\<close> when it returned an error.
\<close>

definition createOfferHandler :: "store \<Rightarrow> Offer option \<Rightarrow> response \<times> store" where
  "createOfferHandler offers body =
     (case body of
        None \<Rightarrow> (StatusBadRequest, offers)
      | Some offer \<Rightarrow> (StatusOK, offers(ID offer \<mapsto> offer)))"

section \<open>The offers and transactions of the scenarios\<close>

definition offerA :: Offer where
  "offerA = \<lparr>ID = ''A'', Name = ''A'', Description = [], RewardType = ''cashback'',
     Outcome = 5, MinAmount = 100, MinMilestone = 0, Details = [],
     EnabledFor = Some [''u1'' \<mapsto> True], MerchantCategory = ''grocery''\<rparr>"

definition offerB :: Offer where
  "offerB = \<lparr>ID = ''B'', Name = ''B'', Description = [], RewardType = ''cashback'',
     Outcome = 8, MinAmount = 50, MinMilestone = 0, Details = [],
     EnabledFor = Some [''u1'' \<mapsto> True], MerchantCategory = ''grocery''\<rparr>"

definition txn120 :: Transaction where
  "txn120 = \<lparr>TxnID = ''t1'', CustomerID = ''u1'', Amount = 120, MerchantID = ''m1'',
     TxnMerchantCategory = ''grocery'', PostEntryMode = ''chip'', Timestamp = 0\<rparr>"

definition offerC :: Offer where
  "offerC = \<lparr>ID = ''C'', Name = ''C'', Description = [], RewardType = ''points'',
     Outcome = 8, MinAmount = 120, MinMilestone = 0, Details = [],
     EnabledFor = Some [''u1'' \<mapsto> True], MerchantCategory = ''grocery''\<rparr>"

text \<open>
  What \<^verbatim>\<open>Decode\<close> makes of
  \<^verbatim>\<open>{"id":"P","outcome":5,"minAmount":100,"merchantCategory":"grocery"}\<close>: the members
  the JSON leaves out keep their zero values, and the zero value of a map is nil.
\<close>

definition offerP :: Offer where
  "offerP = \<lparr>ID = ''P'', Name = [], Description = [], RewardType = [],
     Outcome = 5, MinAmount = 100, MinMilestone = 0, Details = [],
     EnabledFor = None, MerchantCategory = ''grocery''\<rparr>"

text \<open>What \<^verbatim>\<open>Decode\<close> makes of \<^verbatim>\<open>{"outcome":3,"enabledFor":{}}\<close>: the identifier is empty.\<close>

definition offerNoID :: Offer where
  "offerNoID = \<lparr>ID = [], Name = [], Description = [], RewardType = [],
     Outcome = 3, MinAmount = 0, MinMilestone = 0, Details = [],
     EnabledFor = Some Map.empty, MerchantCategory = []\<rparr>"

definition storeAB :: store where
  "storeAB = [''A'' \<mapsto> offerA, ''B'' \<mapsto> offerB]"

definition storeBC :: store where
  "storeBC = [''B'' \<mapsto> offerB, ''C'' \<mapsto> offerC]"

definition storeP :: store where
  "storeP = [''P'' \<mapsto> offerP]"

section \<open>Eligibility\<close>

lemma isEnabledFor_iff:
  "isEnabledFor offer u \<longleftrightarrow> entry offer u = Some True"
  by (simp add: isEnabledFor_def entry_def split: option.splits)

text \<open>
  C1. \<open>isOfferApplicable\<close> is true exactly when the three conditions hold: the amount,
  read as an integer, is at least the offer's minimum; the two merchant categories are
  the same string; and the offer's map holds an explicit true for the customer. So an
  amount equal to the minimum is eligible when the rest holds, an amount one below the
  minimum never is, and two categories that differ (in case only, or otherwise) never are.
  One below is meant as integers: nothing is one below the least 64-bit integer.
\<close>

theorem isOfferApplicable_iff:
  "(isOfferApplicable t offer \<longleftrightarrow>
      sint (MinAmount offer) \<le> sint (Amount t)
      \<and> TxnMerchantCategory t = MerchantCategory offer
      \<and> entry offer (CustomerID t) = Some True)
   \<and> (Amount t = MinAmount offer \<longrightarrow>
        isOfferApplicable t offer =
          (TxnMerchantCategory t = MerchantCategory offer \<and> isEnabledFor offer (CustomerID t)))
   \<and> (sint (Amount t) = sint (MinAmount offer) - 1 \<longrightarrow> \<not> isOfferApplicable t offer)
   \<and> (TxnMerchantCategory t \<noteq> MerchantCategory offer \<longrightarrow> \<not> isOfferApplicable t offer)"
proof -
  have amount: "MinAmount offer \<le>s Amount t \<longleftrightarrow> sint (MinAmount offer) \<le> sint (Amount t)"
    by (rule word_sle_eq)
  have flag: "isEnabledFor offer (CustomerID t) \<longleftrightarrow> entry offer (CustomerID t) = Some True"
    by (rule isEnabledFor_iff)
  have three: "isOfferApplicable t offer \<longleftrightarrow>
      sint (MinAmount offer) \<le> sint (Amount t)
      \<and> TxnMerchantCategory t = MerchantCategory offer
      \<and> entry offer (CustomerID t) = Some True"
    unfolding isOfferApplicable_def amount flag ..
  have at_minimum: "Amount t = MinAmount offer \<longrightarrow>
      isOfferApplicable t offer =
        (TxnMerchantCategory t = MerchantCategory offer \<and> isEnabledFor offer (CustomerID t))"
    unfolding three flag by simp
  have below: "sint (Amount t) = sint (MinAmount offer) - 1 \<longrightarrow> \<not> isOfferApplicable t offer"
    unfolding three by arith
  have category: "TxnMerchantCategory t \<noteq> MerchantCategory offer \<longrightarrow> \<not> isOfferApplicable t offer"
    unfolding three by simp
  from three at_minimum below category show ?thesis by blast
qed

text \<open>
  Offer A (minimum 100, grocery, enabled for u1) against u1's grocery transactions of
  120, of exactly 100 and of 99, against one whose category is spelt \<open>Grocery\<close>, and
  against one of a customer the offer was never enabled for.
\<close>

theorem isOfferApplicable_iff_witness:
  "isOfferApplicable txn120 offerA
   \<and> isOfferApplicable (txn120\<lparr>Amount := 100\<rparr>) offerA
   \<and> \<not> isOfferApplicable (txn120\<lparr>Amount := 99\<rparr>) offerA
   \<and> \<not> isOfferApplicable (txn120\<lparr>TxnMerchantCategory := ''Grocery''\<rparr>) offerA
   \<and> \<not> isOfferApplicable (txn120\<lparr>CustomerID := ''u2''\<rparr>) offerA"
proof -
  note fields = txn120_def offerA_def entry_def isEnabledFor_def
  have "isOfferApplicable txn120 offerA"
    using isOfferApplicable_iff [of txn120 offerA] by (simp add: fields)
  moreover have "isOfferApplicable (txn120\<lparr>Amount := 100\<rparr>) offerA"
    using isOfferApplicable_iff [of "txn120\<lparr>Amount := 100\<rparr>" offerA] by (simp add: fields)
  moreover have "\<not> isOfferApplicable (txn120\<lparr>Amount := 99\<rparr>) offerA"
    using isOfferApplicable_iff [of "txn120\<lparr>Amount := 99\<rparr>" offerA] by (simp add: fields)
  moreover have "\<not> isOfferApplicable (txn120\<lparr>TxnMerchantCategory := ''Grocery''\<rparr>) offerA"
    using isOfferApplicable_iff [of "txn120\<lparr>TxnMerchantCategory := ''Grocery''\<rparr>" offerA]
    by (simp add: fields)
  moreover have "\<not> isOfferApplicable (txn120\<lparr>CustomerID := ''u2''\<rparr>) offerA"
    using isOfferApplicable_iff [of "txn120\<lparr>CustomerID := ''u2''\<rparr>" offerA]
    by (simp add: fields)
  ultimately show ?thesis by blast
qed

section \<open>Selection\<close>

subsection \<open>What the loop visits\<close>

lemma set_visited:
  "set (visited offers ks) = {x. \<exists>k \<in> set ks. offers k = Some x}"
  unfolding visited_def by (induction ks) (auto split: option.splits)

lemma set_visited_range:
  "range_order offers ks \<Longrightarrow> set (visited offers ks) = ran offers"
  by (auto simp: set_visited range_order_def ran_def)

subsection \<open>The loop invariant\<close>

text \<open>
  Started with a candidate \<open>b\<close>, the loop ends either with \<open>b\<close>, and then no applicable
  offer of the list has a greater outcome, or with the first offer of the list whose
  outcome is above \<open>b\<close>'s and above that of every applicable offer before it.
\<close>

lemma bestOffer_loop_from_Some:
  "bestOffer_loop t xs (Some b) = Some r \<Longrightarrow>
     (r = b \<and> (\<forall>x \<in> set xs. isOfferApplicable t x \<longrightarrow> Outcome x \<le> Outcome b))
     \<or> (\<exists>ys zs. xs = ys @ r # zs \<and> isOfferApplicable t r \<and> Outcome b < Outcome r
           \<and> (\<forall>y \<in> set ys. isOfferApplicable t y \<longrightarrow> Outcome y < Outcome r)
           \<and> (\<forall>z \<in> set zs. isOfferApplicable t z \<longrightarrow> Outcome z \<le> Outcome r))"
proof (induction xs arbitrary: b)
  case Nil
  then show ?case by simp
next
  case (Cons x xs)
  show ?case
  proof (cases "isOfferApplicable t x \<and> Outcome b < Outcome x")
    case True
    with Cons.prems have run: "bestOffer_loop t xs (Some x) = Some r" by simp
    from Cons.IH [OF run] show ?thesis
    proof
      assume keep: "r = x \<and> (\<forall>y \<in> set xs. isOfferApplicable t y \<longrightarrow> Outcome y \<le> Outcome x)"
      with True have "x # xs = [] @ r # xs \<and> isOfferApplicable t r \<and> Outcome b < Outcome r
          \<and> (\<forall>y \<in> set []. isOfferApplicable t y \<longrightarrow> Outcome y < Outcome r)
          \<and> (\<forall>z \<in> set xs. isOfferApplicable t z \<longrightarrow> Outcome z \<le> Outcome r)"
        by simp
      then show ?thesis by blast
    next
      assume "\<exists>ys zs. xs = ys @ r # zs \<and> isOfferApplicable t r \<and> Outcome x < Outcome r
           \<and> (\<forall>y \<in> set ys. isOfferApplicable t y \<longrightarrow> Outcome y < Outcome r)
           \<and> (\<forall>z \<in> set zs. isOfferApplicable t z \<longrightarrow> Outcome z \<le> Outcome r)"
      then obtain ys zs where d: "xs = ys @ r # zs" "isOfferApplicable t r" "Outcome x < Outcome r"
           "\<forall>y \<in> set ys. isOfferApplicable t y \<longrightarrow> Outcome y < Outcome r"
           "\<forall>z \<in> set zs. isOfferApplicable t z \<longrightarrow> Outcome z \<le> Outcome r"
        by blast
      with True have "x # xs = (x # ys) @ r # zs \<and> isOfferApplicable t r \<and> Outcome b < Outcome r
          \<and> (\<forall>y \<in> set (x # ys). isOfferApplicable t y \<longrightarrow> Outcome y < Outcome r)
          \<and> (\<forall>z \<in> set zs. isOfferApplicable t z \<longrightarrow> Outcome z \<le> Outcome r)"
        by auto
      then show ?thesis by blast
    qed
  next
    case False
    with Cons.prems have run: "bestOffer_loop t xs (Some b) = Some r"
      by (simp split: if_splits)
    from False have x_le: "isOfferApplicable t x \<longrightarrow> Outcome x \<le> Outcome b" by auto
    from Cons.IH [OF run] show ?thesis
    proof
      assume "r = b \<and> (\<forall>y \<in> set xs. isOfferApplicable t y \<longrightarrow> Outcome y \<le> Outcome b)"
      with x_le show ?thesis by simp
    next
      assume "\<exists>ys zs. xs = ys @ r # zs \<and> isOfferApplicable t r \<and> Outcome b < Outcome r
           \<and> (\<forall>y \<in> set ys. isOfferApplicable t y \<longrightarrow> Outcome y < Outcome r)
           \<and> (\<forall>z \<in> set zs. isOfferApplicable t z \<longrightarrow> Outcome z \<le> Outcome r)"
      then obtain ys zs where d: "xs = ys @ r # zs" "isOfferApplicable t r" "Outcome b < Outcome r"
           "\<forall>y \<in> set ys. isOfferApplicable t y \<longrightarrow> Outcome y < Outcome r"
           "\<forall>z \<in> set zs. isOfferApplicable t z \<longrightarrow> Outcome z \<le> Outcome r"
        by blast
      with x_le have "x # xs = (x # ys) @ r # zs \<and> isOfferApplicable t r \<and> Outcome b < Outcome r
          \<and> (\<forall>y \<in> set (x # ys). isOfferApplicable t y \<longrightarrow> Outcome y < Outcome r)
          \<and> (\<forall>z \<in> set zs. isOfferApplicable t z \<longrightarrow> Outcome z \<le> Outcome r)"
        by auto
      then show ?thesis by blast
    qed
  qed
qed

lemma bestOffer_loop_Some_total:
  "\<exists>r. bestOffer_loop t xs (Some b) = Some r"
  by (induction xs arbitrary: b) auto

lemma bestOffer_loop_None_iff:
  "bestOffer_loop t xs None = None \<longleftrightarrow> (\<forall>x \<in> set xs. \<not> isOfferApplicable t x)"
proof (induction xs)
  case Nil
  then show ?case by simp
next
  case (Cons x xs)
  show ?case
  proof (cases "isOfferApplicable t x")
    case True
    from bestOffer_loop_Some_total [of t xs x] True show ?thesis by auto
  next
    case False
    with Cons.IH show ?thesis by simp
  qed
qed

lemma bestOffer_loop_first_best:
  "bestOffer_loop t xs None = Some r \<Longrightarrow>
     \<exists>ys zs. xs = ys @ r # zs \<and> isOfferApplicable t r
        \<and> (\<forall>y \<in> set ys. isOfferApplicable t y \<longrightarrow> Outcome y < Outcome r)
        \<and> (\<forall>z \<in> set zs. isOfferApplicable t z \<longrightarrow> Outcome z \<le> Outcome r)"
proof (induction xs)
  case Nil
  then show ?case by simp
next
  case (Cons x xs)
  show ?case
  proof (cases "isOfferApplicable t x")
    case True
    with Cons.prems have run: "bestOffer_loop t xs (Some x) = Some r" by simp
    from bestOffer_loop_from_Some [OF run] show ?thesis
    proof
      assume "r = x \<and> (\<forall>y \<in> set xs. isOfferApplicable t y \<longrightarrow> Outcome y \<le> Outcome x)"
      with True have "x # xs = [] @ r # xs \<and> isOfferApplicable t r
          \<and> (\<forall>y \<in> set []. isOfferApplicable t y \<longrightarrow> Outcome y < Outcome r)
          \<and> (\<forall>z \<in> set xs. isOfferApplicable t z \<longrightarrow> Outcome z \<le> Outcome r)"
        by simp
      then show ?thesis by blast
    next
      assume "\<exists>ys zs. xs = ys @ r # zs \<and> isOfferApplicable t r \<and> Outcome x < Outcome r
           \<and> (\<forall>y \<in> set ys. isOfferApplicable t y \<longrightarrow> Outcome y < Outcome r)
           \<and> (\<forall>z \<in> set zs. isOfferApplicable t z \<longrightarrow> Outcome z \<le> Outcome r)"
      then obtain ys zs where d: "xs = ys @ r # zs" "isOfferApplicable t r" "Outcome x < Outcome r"
           "\<forall>y \<in> set ys. isOfferApplicable t y \<longrightarrow> Outcome y < Outcome r"
           "\<forall>z \<in> set zs. isOfferApplicable t z \<longrightarrow> Outcome z \<le> Outcome r"
        by blast
      then have "x # xs = (x # ys) @ r # zs \<and> isOfferApplicable t r
          \<and> (\<forall>y \<in> set (x # ys). isOfferApplicable t y \<longrightarrow> Outcome y < Outcome r)
          \<and> (\<forall>z \<in> set zs. isOfferApplicable t z \<longrightarrow> Outcome z \<le> Outcome r)"
        by auto
      then show ?thesis by blast
    qed
  next
    case False
    with Cons.prems have "bestOffer_loop t xs None = Some r" by simp
    from Cons.IH [OF this] obtain ys zs where d: "xs = ys @ r # zs" "isOfferApplicable t r"
           "\<forall>y \<in> set ys. isOfferApplicable t y \<longrightarrow> Outcome y < Outcome r"
           "\<forall>z \<in> set zs. isOfferApplicable t z \<longrightarrow> Outcome z \<le> Outcome r"
      by blast
    with False have "x # xs = (x # ys) @ r # zs \<and> isOfferApplicable t r
          \<and> (\<forall>y \<in> set (x # ys). isOfferApplicable t y \<longrightarrow> Outcome y < Outcome r)
          \<and> (\<forall>z \<in> set zs. isOfferApplicable t z \<longrightarrow> Outcome z \<le> Outcome r)"
      by auto
    then show ?thesis by blast
  qed
qed

subsection \<open>The function\<close>

lemma ApplyBest_total:
  "ApplyBestOfferForTransaction t offers ks = Inl NoApplicableOffer
   \<or> (\<exists>best. ApplyBestOfferForTransaction t offers ks = Inr best)"
  by (simp add: ApplyBestOfferForTransaction_def split: option.splits)

lemma ApplyBest_Inl_iff:
  "ApplyBestOfferForTransaction t offers ks = Inl NoApplicableOffer
   \<longleftrightarrow> (\<forall>x \<in> set (visited offers ks). \<not> isOfferApplicable t x)"
  by (simp add: ApplyBestOfferForTransaction_def bestOffer_loop_None_iff [symmetric]
      split: option.splits)

lemma ApplyBest_Inr_split:
  assumes "ApplyBestOfferForTransaction t offers ks = Inr best"
  shows "\<exists>ys zs. visited offers ks = ys @ best # zs \<and> isOfferApplicable t best
           \<and> (\<forall>y \<in> set ys. isOfferApplicable t y \<longrightarrow> Outcome y < Outcome best)
           \<and> (\<forall>z \<in> set zs. isOfferApplicable t z \<longrightarrow> Outcome z \<le> Outcome best)"
proof -
  from assms have "bestOffer_loop t (visited offers ks) None = Some best"
    by (simp add: ApplyBestOfferForTransaction_def split: option.splits)
  then show ?thesis by (rule bestOffer_loop_first_best)
qed

text \<open>
  C2. When some offer of the map is applicable, the function returns an offer of the map
  that is applicable and whose outcome is at least that of every applicable offer of the
  map; and every applicable offer the iteration met before it has a strictly smaller
  outcome, so among the offers that share the greatest outcome it is the first one met.
\<close>

theorem ApplyBest_first_maximal:
  assumes order: "range_order offers ks"
    and some: "offers k = Some a" and app: "isOfferApplicable t a"
  shows "\<exists>best ys zs.
           ApplyBestOfferForTransaction t offers ks = Inr best
           \<and> best \<in> ran offers \<and> isOfferApplicable t best
           \<and> (\<forall>x \<in> ran offers. isOfferApplicable t x \<longrightarrow> Outcome x \<le> Outcome best)
           \<and> visited offers ks = ys @ best # zs
           \<and> (\<forall>y \<in> set ys. isOfferApplicable t y \<longrightarrow> Outcome y < Outcome best)"
proof -
  have all: "set (visited offers ks) = ran offers"
    using order by (rule set_visited_range)
  from some have "a \<in> ran offers" by (auto simp: ran_def)
  with all app have "ApplyBestOfferForTransaction t offers ks \<noteq> Inl NoApplicableOffer"
    by (auto simp: ApplyBest_Inl_iff)
  then obtain best where result: "ApplyBestOfferForTransaction t offers ks = Inr best"
    using ApplyBest_total [of t offers ks] by blast
  from ApplyBest_Inr_split [OF result] obtain ys zs where
    d: "visited offers ks = ys @ best # zs" "isOfferApplicable t best"
       "\<forall>y \<in> set ys. isOfferApplicable t y \<longrightarrow> Outcome y < Outcome best"
       "\<forall>z \<in> set zs. isOfferApplicable t z \<longrightarrow> Outcome z \<le> Outcome best"
    by blast
  from d(1) all have parts: "ran offers = set ys \<union> {best} \<union> set zs" by auto
  have mem: "best \<in> ran offers" using parts by simp
  have top: "\<forall>x \<in> ran offers. isOfferApplicable t x \<longrightarrow> Outcome x \<le> Outcome best"
    using parts d(3,4) by fastforce
  from result mem d(2) top d(1) d(3) show ?thesis by blast
qed

lemma range_order_storeAB: "range_order storeAB [''A'', ''B'']"
  by (auto simp: range_order_def storeAB_def)

lemma applicable_txn120:
  "isOfferApplicable txn120 offerA" "isOfferApplicable txn120 offerB"
  "isOfferApplicable txn120 offerC"
  by (simp_all add: isOfferApplicable_def isEnabledFor_def txn120_def offerA_def offerB_def
      offerC_def)

lemma visited_storeAB: "visited storeAB [''A'', ''B''] = [offerA, offerB]"
  by (simp add: visited_def storeAB_def)

text \<open>
  The first scenario of the specification: A (outcome 5) and B (outcome 8), both enabled
  for u1, and u1's grocery transaction of 120; B is returned.
\<close>

theorem ApplyBest_first_maximal_witness:
  "range_order storeAB [''A'', ''B''] \<and> storeAB ''A'' = Some offerA
   \<and> isOfferApplicable txn120 offerA
   \<and> (\<exists>best ys zs.
           ApplyBestOfferForTransaction txn120 storeAB [''A'', ''B''] = Inr best
           \<and> best \<in> ran storeAB \<and> isOfferApplicable txn120 best
           \<and> (\<forall>x \<in> ran storeAB. isOfferApplicable txn120 x \<longrightarrow> Outcome x \<le> Outcome best)
           \<and> visited storeAB [''A'', ''B''] = ys @ best # zs
           \<and> (\<forall>y \<in> set ys. isOfferApplicable txn120 y \<longrightarrow> Outcome y < Outcome best))
   \<and> ApplyBestOfferForTransaction txn120 storeAB [''A'', ''B''] = Inr offerB"
proof -
  have h1: "range_order storeAB [''A'', ''B'']" by (rule range_order_storeAB)
  have h2: "storeAB ''A'' = Some offerA" by (simp add: storeAB_def)
  have h3: "isOfferApplicable txn120 offerA" by (rule applicable_txn120)
  have "Outcome offerA < Outcome offerB" by (simp add: offerA_def offerB_def)
  then have run: "ApplyBestOfferForTransaction txn120 storeAB [''A'', ''B''] = Inr offerB"
    by (simp add: ApplyBestOfferForTransaction_def visited_storeAB applicable_txn120)
  from h1 h2 h3 ApplyBest_first_maximal [OF h1 h2 h3] run show ?thesis by blast
qed

text \<open>
  B and C share the greatest outcome and both are applicable: the offer returned is the
  one the iteration meets first, whichever that is.
\<close>

lemma tie_follows_iteration_order:
  "ApplyBestOfferForTransaction txn120 storeBC [''B'', ''C''] = Inr offerB"
  "ApplyBestOfferForTransaction txn120 storeBC [''C'', ''B''] = Inr offerC"
proof -
  have "Outcome offerB = Outcome offerC" by (simp add: offerB_def offerC_def)
  then show "ApplyBestOfferForTransaction txn120 storeBC [''B'', ''C''] = Inr offerB"
    and "ApplyBestOfferForTransaction txn120 storeBC [''C'', ''B''] = Inr offerC"
    by (simp_all add: ApplyBestOfferForTransaction_def visited_def storeBC_def
        applicable_txn120)
qed

text \<open>
  C3. The function returns the error "no applicable offer found" exactly when no offer of
  the map is applicable to the transaction.
\<close>

theorem no_applicable_offer_iff:
  assumes order: "range_order offers ks"
  shows "ApplyBestOfferForTransaction t offers ks = Inl NoApplicableOffer
         \<longleftrightarrow> (\<forall>k x. offers k = Some x \<longrightarrow> \<not> isOfferApplicable t x)"
proof -
  have "set (visited offers ks) = ran offers"
    using order by (rule set_visited_range)
  then have "ApplyBestOfferForTransaction t offers ks = Inl NoApplicableOffer
        \<longleftrightarrow> (\<forall>x \<in> ran offers. \<not> isOfferApplicable t x)"
    by (simp add: ApplyBest_Inl_iff)
  also have "\<dots> \<longleftrightarrow> (\<forall>k x. offers k = Some x \<longrightarrow> \<not> isOfferApplicable t x)"
    by (auto simp: ran_def)
  finally show ?thesis .
qed

text \<open>
  A customer no offer was enabled for gets the error; u1, for whom A is applicable, does
  not.
\<close>

theorem no_applicable_offer_iff_witness:
  "range_order storeAB [''A'', ''B'']
   \<and> ApplyBestOfferForTransaction (txn120\<lparr>CustomerID := ''u2''\<rparr>) storeAB [''A'', ''B'']
       = Inl NoApplicableOffer
   \<and> ApplyBestOfferForTransaction txn120 storeAB [''A'', ''B''] \<noteq> Inl NoApplicableOffer"
proof -
  have h: "range_order storeAB [''A'', ''B'']" by (rule range_order_storeAB)
  have none: "\<forall>k x. storeAB k = Some x \<longrightarrow> \<not> isOfferApplicable (txn120\<lparr>CustomerID := ''u2''\<rparr>) x"
    by (auto simp: storeAB_def isOfferApplicable_def isEnabledFor_def offerA_def offerB_def
        split: if_splits)
  have some: "\<not> (\<forall>k x. storeAB k = Some x \<longrightarrow> \<not> isOfferApplicable txn120 x)"
    using applicable_txn120(1) by (auto simp: storeAB_def)
  from none no_applicable_offer_iff [OF h, of "txn120\<lparr>CustomerID := ''u2''\<rparr>"]
  have "ApplyBestOfferForTransaction (txn120\<lparr>CustomerID := ''u2''\<rparr>) storeAB [''A'', ''B'']
       = Inl NoApplicableOffer"
    by blast
  moreover from some no_applicable_offer_iff [OF h, of txn120]
  have "ApplyBestOfferForTransaction txn120 storeAB [''A'', ''B''] \<noteq> Inl NoApplicableOffer"
    by blast
  ultimately show ?thesis using h by blast
qed

text \<open>
  C5. Take an offer E of the map that is applicable to the transaction, and put in its
  place E with an outcome \<open>v\<close> strictly above the outcome of every other offer of the
  map, all else unchanged: the function returns that offer, in whatever order the
  iteration runs.
\<close>

theorem raised_outcome_wins:
  assumes held: "offers k = Some e" and app: "isOfferApplicable t e"
    and above: "\<forall>k' x. k' \<noteq> k \<longrightarrow> offers k' = Some x \<longrightarrow> Outcome x < v"
    and order: "range_order (offers(k \<mapsto> e\<lparr>Outcome := v\<rparr>)) ks"
  shows "ApplyBestOfferForTransaction t (offers(k \<mapsto> e\<lparr>Outcome := v\<rparr>)) ks
           = Inr (e\<lparr>Outcome := v\<rparr>)"
proof -
  let ?e = "e\<lparr>Outcome := v\<rparr>"
  let ?offers = "offers(k \<mapsto> ?e)"
  have app': "isOfferApplicable t ?e"
    using app by (simp add: isOfferApplicable_def isEnabledFor_def)
  have all: "set (visited ?offers ks) = ran ?offers"
    using order by (rule set_visited_range)
  have "?offers k = Some ?e" by simp
  then have e_in: "?e \<in> set (visited ?offers ks)"
    unfolding all ran_def by blast
  with app' have "ApplyBestOfferForTransaction t ?offers ks \<noteq> Inl NoApplicableOffer"
    unfolding ApplyBest_Inl_iff by blast
  then obtain best where run: "ApplyBestOfferForTransaction t ?offers ks = Inr best"
    using ApplyBest_total [of t ?offers ks] by blast
  from ApplyBest_Inr_split [OF run] obtain ys zs where
    d: "visited ?offers ks = ys @ best # zs"
       "\<forall>y \<in> set ys. isOfferApplicable t y \<longrightarrow> Outcome y < Outcome best"
       "\<forall>z \<in> set zs. isOfferApplicable t z \<longrightarrow> Outcome z \<le> Outcome best"
    by blast
  from e_in d app' have ge: "Outcome ?e \<le> Outcome best" by fastforce
  from d(1) all have "best \<in> ran ?offers" by auto
  then obtain k' where k': "?offers k' = Some best" unfolding ran_def by blast
  have "k' = k"
  proof (rule ccontr)
    assume ne: "k' \<noteq> k"
    with k' have "offers k' = Some best" by simp
    with above ne have "Outcome best < v" by blast
    with ge show False by simp
  qed
  with k' have "best = ?e" by simp
  with run show ?thesis by simp
qed

text \<open>
  A's outcome is raised from 5 to 9, above B's 8: A is returned, though the iteration
  meets B first.
\<close>

theorem raised_outcome_wins_witness:
  "storeAB ''A'' = Some offerA \<and> isOfferApplicable txn120 offerA
   \<and> Outcome offerB < 9
   \<and> range_order (storeAB(''A'' \<mapsto> offerA\<lparr>Outcome := 9\<rparr>)) [''B'', ''A'']
   \<and> ApplyBestOfferForTransaction txn120 (storeAB(''A'' \<mapsto> offerA\<lparr>Outcome := 9\<rparr>))
         [''B'', ''A''] = Inr (offerA\<lparr>Outcome := 9\<rparr>)"
proof -
  have h1: "storeAB ''A'' = Some offerA" by (simp add: storeAB_def)
  have h2: "isOfferApplicable txn120 offerA" by (rule applicable_txn120)
  have b: "Outcome offerB < 9" by (simp add: offerB_def)
  then have h3: "\<forall>k' x. k' \<noteq> ''A'' \<longrightarrow> storeAB k' = Some x \<longrightarrow> Outcome x < 9"
    by (auto simp: storeAB_def split: if_splits)
  have h4: "range_order (storeAB(''A'' \<mapsto> offerA\<lparr>Outcome := 9\<rparr>)) [''B'', ''A'']"
    by (auto simp: range_order_def storeAB_def)
  from h1 h2 b h4 raised_outcome_wins [OF h1 h2 h3 h4] show ?thesis by blast
qed

section \<open>Enablement\<close>

subsection \<open>Offers whose map is allocated\<close>

lemma EnableForUser_allocated:
  assumes "EnabledFor offer = Some m"
  shows "EnableForUser offer u = Inr (offer\<lparr>EnabledFor := Some (m(u \<mapsto> True))\<rparr>)"
  using assms by (simp add: EnableForUser_def)

lemma DisableForUser_allocated:
  assumes "EnabledFor offer = Some m"
  shows "DisableForUser offer u = Inr (offer\<lparr>EnabledFor := Some (m(u \<mapsto> False))\<rparr>)"
  using assms by (simp add: DisableForUser_def)

text \<open>On such an offer, enabling makes the flag true and disabling after it makes it false.\<close>

lemma enable_disable_round_trip:
  assumes "EnabledFor offer = Some m"
  shows "\<exists>a b. EnableForUser offer u = Inr a \<and> isEnabledFor a u
           \<and> DisableForUser a u = Inr b \<and> \<not> isEnabledFor b u"
  using assms by (simp add: EnableForUser_def DisableForUser_def isEnabledFor_def)

text \<open>A user with no entry is not enabled, whether the map is nil or allocated.\<close>

lemma absent_entry_not_enabled:
  "entry offer u = None \<Longrightarrow> \<not> isEnabledFor offer u"
  by (simp add: isEnabledFor_iff)

text \<open>
  On such an offer, disabling records an explicit false; if the user was not enabled,
  no transaction's eligibility changes.
\<close>

lemma DisableForUser_records_false:
  assumes "EnabledFor offer = Some m"
  shows "\<exists>b. DisableForUser offer u = Inr b \<and> entry b u = Some False
           \<and> (\<not> isEnabledFor offer u \<longrightarrow> (\<forall>t. isOfferApplicable t b = isOfferApplicable t offer))"
  using assms
  by (auto simp: DisableForUser_def entry_def isOfferApplicable_def isEnabledFor_def
      split: option.splits)

text \<open>Either operation, applied again to its own result, returns that result.\<close>

lemma EnableForUser_idempotent:
  "EnableForUser offer u = Inr a \<Longrightarrow> EnableForUser a u = Inr a"
  by (auto simp: EnableForUser_def split: option.splits)

lemma DisableForUser_idempotent:
  "DisableForUser offer u = Inr a \<Longrightarrow> DisableForUser a u = Inr a"
  by (auto simp: DisableForUser_def split: option.splits)

subsection \<open>An offer whose map is nil\<close>

text \<open>
  C4. The specification has the user's flag read true after \<open>EnableForUser\<close>, for
  every offer. On the offer P, created from a payload with no \<^verbatim>\<open>enabledFor\<close> member,
  the assignment of line 39 panics: the offer is stored by \<open>createOfferHandler\<close>, it
  cannot be enabled, the flag of u1 still reads false, and u1's matching transaction
  finds no offer.
\<close>

theorem EnableForUser_nil_map_panics:
  "createOfferHandler Map.empty (Some offerP) = (StatusOK, storeP)
   \<and> EnableForUser offerP ''u1'' = Inl NilMapAssignment
   \<and> snd (enableOfferHandler storeP ''P'' ''u1'') = storeP
   \<and> isEnabledFor offerP ''u1'' = False
   \<and> ApplyBestOfferForTransaction txn120 storeP [''P''] = Inl NoApplicableOffer"
  by (simp add: createOfferHandler_def storeP_def EnableForUser_def enableOfferHandler_def
      isEnabledFor_def ApplyBestOfferForTransaction_def visited_def isOfferApplicable_def
      offerP_def)

text \<open>
  C6. The specification has \<open>DisableForUser\<close> record an explicit false entry for a user
  who was never enabled, for every offer. On the offer P the assignment of line 44
  panics, and u1 has no entry before and none after.
\<close>

theorem DisableForUser_nil_map_panics:
  "entry offerP ''u1'' = None
   \<and> DisableForUser offerP ''u1'' = Inl NilMapAssignment
   \<and> snd (disableOfferHandler storeP ''P'' ''u1'') ''P'' = Some offerP"
  by (simp add: entry_def DisableForUser_def disableOfferHandler_def storeP_def offerP_def)

section \<open>The enable and disable handlers\<close>

lemma enableOfferHandler_not_found_iff:
  "fst (enableOfferHandler offers n u) = StatusNotFound \<longleftrightarrow> offers n = None"
  by (simp add: enableOfferHandler_def split: option.splits sum.splits)

lemma disableOfferHandler_not_found_iff:
  "fst (disableOfferHandler offers n u) = StatusNotFound \<longleftrightarrow> offers n = None"
  by (simp add: disableOfferHandler_def split: option.splits sum.splits)

text \<open>A handler that does not answer 200 leaves the store as it was.\<close>

lemma enableOfferHandler_failure_keeps_store:
  "fst (enableOfferHandler offers n u) \<noteq> StatusOK \<Longrightarrow>
     snd (enableOfferHandler offers n u) = offers"
  by (simp add: enableOfferHandler_def split: option.splits sum.splits)

lemma disableOfferHandler_failure_keeps_store:
  "fst (disableOfferHandler offers n u) \<noteq> StatusOK \<Longrightarrow>
     snd (disableOfferHandler offers n u) = offers"
  by (simp add: disableOfferHandler_def split: option.splits sum.splits)

text \<open>An offer that is in the store with an allocated map is enabled and disabled with 200.\<close>

lemma handlers_succeed_on_allocated:
  assumes "offers n = Some offer" and "EnabledFor offer = Some m"
  shows "fst (enableOfferHandler offers n u) = StatusOK"
    and "fst (disableOfferHandler offers n u) = StatusOK"
  using assms
  by (simp_all add: enableOfferHandler_def disableOfferHandler_def EnableForUser_def
      DisableForUser_def)

text \<open>
  C9. The specification has the two handlers succeed whenever the offer exists. The
  offer P is in the store and both handlers abort on it, with neither 200 nor 404.
\<close>

theorem handlers_abort_on_nil_map:
  "storeP ''P'' = Some offerP
   \<and> enableOfferHandler storeP ''P'' ''u1'' = (Aborted NilMapAssignment, storeP)
   \<and> disableOfferHandler storeP ''P'' ''u1'' = (Aborted NilMapAssignment, storeP)"
  by (simp add: enableOfferHandler_def disableOfferHandler_def EnableForUser_def
      DisableForUser_def storeP_def offerP_def)

text \<open>
  C10. Whatever either handler answers, the store it leaves differs from the one it
  found at most in the entry of \<open>userID\<close> in the map of the offer \<open>offerName\<close>: every
  other key holds what it held, the offer is there exactly if it was, each of its other
  fields is unchanged, and so is the entry of every other user.
\<close>

theorem handlers_frame:
  assumes which: "h = enableOfferHandler \<or> h = disableOfferHandler"
    and run: "h offers offerName userID = (r, offers')"
  shows "(\<forall>k. k \<noteq> offerName \<longrightarrow> offers' k = offers k)
       \<and> (offers' offerName = None \<longleftrightarrow> offers offerName = None)
       \<and> (\<forall>a b. offers offerName = Some a \<longrightarrow> offers' offerName = Some b \<longrightarrow>
            ID b = ID a \<and> Name b = Name a \<and> Description b = Description a
            \<and> RewardType b = RewardType a \<and> Outcome b = Outcome a
            \<and> MinAmount b = MinAmount a \<and> MinMilestone b = MinMilestone a
            \<and> Details b = Details a \<and> MerchantCategory b = MerchantCategory a
            \<and> (EnabledFor b = None \<longleftrightarrow> EnabledFor a = None)
            \<and> (\<forall>u. u \<noteq> userID \<longrightarrow> entry b u = entry a u))"
proof (cases "offers offerName")
  case None
  with which run have "offers' = offers"
    by (auto simp: enableOfferHandler_def disableOfferHandler_def)
  with None show ?thesis by simp
next
  case (Some a)
  show ?thesis
  proof (cases "EnabledFor a")
    case None
    with Some which run have "offers' = offers"
      by (auto simp: enableOfferHandler_def disableOfferHandler_def EnableForUser_def
          DisableForUser_def)
    with Some show ?thesis by simp
  next
    case (Some m)
    with \<open>offers offerName = Some a\<close> which run
    obtain v where "offers' = offers(offerName \<mapsto> a\<lparr>EnabledFor := Some (m(userID \<mapsto> v))\<rparr>)"
      by (auto simp: enableOfferHandler_def disableOfferHandler_def EnableForUser_def
          DisableForUser_def)
    with Some \<open>offers offerName = Some a\<close> show ?thesis
      by (simp add: entry_def)
  qed
qed

text \<open>
  Enabling u2 on A in the store of A and B: B is untouched, A keeps its fields and the
  true entry of u1.
\<close>

theorem handlers_frame_witness:
  "enableOfferHandler storeAB ''A'' ''u2''
     = (StatusOK, storeAB(''A'' \<mapsto> offerA\<lparr>EnabledFor := Some [''u1'' \<mapsto> True, ''u2'' \<mapsto> True]\<rparr>))
   \<and> snd (enableOfferHandler storeAB ''A'' ''u2'') ''B'' = storeAB ''B''
   \<and> entry (offerA\<lparr>EnabledFor := Some [''u1'' \<mapsto> True, ''u2'' \<mapsto> True]\<rparr>) ''u1''
       = entry offerA ''u1''
   \<and> Outcome (offerA\<lparr>EnabledFor := Some [''u1'' \<mapsto> True, ''u2'' \<mapsto> True]\<rparr>) = Outcome offerA"
proof -
  let ?a' = "offerA\<lparr>EnabledFor := Some [''u1'' \<mapsto> True, ''u2'' \<mapsto> True]\<rparr>"
  have run: "enableOfferHandler storeAB ''A'' ''u2'' = (StatusOK, storeAB(''A'' \<mapsto> ?a'))"
    by (simp add: enableOfferHandler_def EnableForUser_def storeAB_def offerA_def)
  have at_A: "storeAB ''A'' = Some offerA" "(storeAB(''A'' \<mapsto> ?a')) ''A'' = Some ?a'"
    by (simp_all add: storeAB_def)
  note frame = handlers_frame [of enableOfferHandler, OF _ run, simplified]
  from frame have "(storeAB(''A'' \<mapsto> ?a')) ''B'' = storeAB ''B''"
    by simp
  moreover from frame at_A have "entry ?a' ''u1'' = entry offerA ''u1''"
    by simp
  moreover from frame at_A have "Outcome ?a' = Outcome offerA"
    by simp
  ultimately show ?thesis using run by simp
qed

section \<open>Creating an offer\<close>

text \<open>
  C7. When the payload's identifier is already a key of the store, the handler answers
  200 and leaves a store that holds exactly the payload under that key, map and all, and
  under every other key what it held.
\<close>

theorem createOfferHandler_replaces:
  assumes present: "offers (ID new) = Some old"
  shows "\<exists>offers'. createOfferHandler offers (Some new) = (StatusOK, offers')
           \<and> offers' (ID new) = Some new
           \<and> (\<forall>k. k \<noteq> ID new \<longrightarrow> offers' k = offers k)
           \<and> dom offers' = dom offers"
proof -
  let ?offers' = "offers(ID new \<mapsto> new)"
  have "createOfferHandler offers (Some new) = (StatusOK, ?offers')"
    by (simp add: createOfferHandler_def)
  moreover have "?offers' (ID new) = Some new" by simp
  moreover have "\<forall>k. k \<noteq> ID new \<longrightarrow> ?offers' k = offers k" by simp
  moreover from present have "dom ?offers' = dom offers" by auto
  ultimately show ?thesis by blast
qed

text \<open>
  A payload named A with a nil map, put into the store of A and B: the store holds the
  payload under A, so u1, enabled on the offer it replaces, is not enabled any more; B
  is untouched.
\<close>

theorem createOfferHandler_replaces_witness:
  "storeAB (ID (offerP\<lparr>ID := ''A''\<rparr>)) = Some offerA
   \<and> isEnabledFor offerA ''u1''
   \<and> (\<exists>offers'. createOfferHandler storeAB (Some (offerP\<lparr>ID := ''A''\<rparr>)) = (StatusOK, offers')
         \<and> offers' ''A'' = Some (offerP\<lparr>ID := ''A''\<rparr>)
         \<and> offers' ''B'' = storeAB ''B''
         \<and> dom offers' = dom storeAB)
   \<and> \<not> isEnabledFor (offerP\<lparr>ID := ''A''\<rparr>) ''u1''"
proof -
  let ?new = "offerP\<lparr>ID := ''A''\<rparr>"
  have id: "ID ?new = ''A''" by simp
  have h: "storeAB (ID ?new) = Some offerA" by (simp add: storeAB_def)
  have was: "isEnabledFor offerA ''u1''" by (simp add: isEnabledFor_def offerA_def)
  have now: "\<not> isEnabledFor ?new ''u1''" by (simp add: isEnabledFor_def offerP_def)
  from createOfferHandler_replaces [of storeAB ?new offerA, OF h] obtain offers' where
    r: "createOfferHandler storeAB (Some ?new) = (StatusOK, offers')"
       "offers' (ID ?new) = Some ?new"
       "\<forall>k. k \<noteq> ID ?new \<longrightarrow> offers' k = storeAB k"
       "dom offers' = dom storeAB"
    by blast
  from r(3) have "offers' ''B'' = storeAB ''B''" unfolding id by simp
  with r(1,2,4) have "\<exists>offers'. createOfferHandler storeAB (Some ?new) = (StatusOK, offers')
         \<and> offers' ''A'' = Some ?new \<and> offers' ''B'' = storeAB ''B''
         \<and> dom offers' = dom storeAB"
    unfolding id by blast
  with h was now show ?thesis by blast
qed

text \<open>
  C8, as the specification states it: a payload whose identifier is empty is rejected and
  the store is left unchanged. The handler has no such check: put into the empty store,
  the payload with the empty identifier is answered with 200 and is stored under the
  empty key.
\<close>

theorem empty_identifier_is_stored:
  "ID offerNoID = []
   \<and> fst (createOfferHandler Map.empty (Some offerNoID)) = StatusOK
   \<and> snd (createOfferHandler Map.empty (Some offerNoID)) [] = Some offerNoID
   \<and> snd (createOfferHandler Map.empty (Some offerNoID)) \<noteq> Map.empty"
proof -
  have stored: "snd (createOfferHandler Map.empty (Some offerNoID)) [] = Some offerNoID"
    by (simp add: createOfferHandler_def offerNoID_def)
  then have "snd (createOfferHandler Map.empty (Some offerNoID)) [] \<noteq> Map.empty []"
    by simp
  then have "snd (createOfferHandler Map.empty (Some offerNoID)) \<noteq> Map.empty"
    by metis
  with stored show ?thesis
    by (simp add: createOfferHandler_def offerNoID_def)
qed

text \<open>
  C8, amended. The handler looks at no field of the payload: it answers 200 for every
  body that decoded, whatever its identifier, and stores the payload under that
  identifier; it rejects a request only when the body did not decode, and then the store
  is left unchanged.
\<close>

theorem createOfferHandler_validates_nothing:
  "(fst (createOfferHandler offers body) = StatusOK \<longleftrightarrow> body \<noteq> None)
   \<and> (body = None \<longrightarrow> createOfferHandler offers body = (StatusBadRequest, offers))
   \<and> (\<forall>offer. body = Some offer \<longrightarrow>
         snd (createOfferHandler offers body) = offers(ID offer \<mapsto> offer))"
proof (cases body)
  case None
  then have "createOfferHandler offers body = (StatusBadRequest, offers)"
    by (simp add: createOfferHandler_def)
  with None show ?thesis by simp
next
  case (Some offer)
  then have "createOfferHandler offers body = (StatusOK, offers(ID offer \<mapsto> offer))"
    by (simp add: createOfferHandler_def)
  with Some show ?thesis by simp
qed

theorem createOfferHandler_validates_nothing_witness:
  "fst (createOfferHandler storeAB (Some offerNoID)) = StatusOK
   \<and> snd (createOfferHandler storeAB (Some offerNoID)) = storeAB([] \<mapsto> offerNoID)
   \<and> createOfferHandler storeAB None = (StatusBadRequest, storeAB)"
proof -
  have "ID offerNoID = []" by (simp add: offerNoID_def)
  with createOfferHandler_validates_nothing [of storeAB "Some offerNoID"]
  have "fst (createOfferHandler storeAB (Some offerNoID)) = StatusOK"
    and "snd (createOfferHandler storeAB (Some offerNoID)) = storeAB([] \<mapsto> offerNoID)"
    by simp_all
  moreover from createOfferHandler_validates_nothing [of storeAB None]
  have "createOfferHandler storeAB None = (StatusBadRequest, storeAB)"
    by simp
  ultimately show ?thesis by blast
qed

end
